theory Spec2Isabelle
  imports Complex_Main
begin

section \<open>Numbers of the program\<close>

text \<open>
  Every number that \<^verbatim>\<open>app.py\<close> computes with is a numpy \<^verbatim>\<open>float64\<close>.  A finite one is
  modelled by the real number it stands for: rounding, overflow and the sign of zero are
  left out.  The three special values are kept, since numpy's arithmetic produces them
  where a checked language would raise: a division by zero gives an infinity or NaN
  (with a warning only), the logarithm of zero gives minus infinity, the logarithm or
  the square root of a negative number gives NaN.
\<close>

datatype npfloat = Fin real | PInf | NInf | NaN

fun np_neg :: "npfloat \<Rightarrow> npfloat" where
  "np_neg (Fin a) = Fin (- a)"
| "np_neg PInf = NInf"
| "np_neg NInf = PInf"
| "np_neg NaN = NaN"

fun np_add :: "npfloat \<Rightarrow> npfloat \<Rightarrow> npfloat" where
  "np_add (Fin a) (Fin b) = Fin (a + b)"
| "np_add (Fin a) PInf = PInf"
| "np_add (Fin a) NInf = NInf"
| "np_add PInf (Fin b) = PInf"
| "np_add PInf PInf = PInf"
| "np_add PInf NInf = NaN"
| "np_add NInf (Fin b) = NInf"
| "np_add NInf PInf = NaN"
| "np_add NInf NInf = NInf"
| "np_add NaN y = NaN"
| "np_add x NaN = NaN"

definition np_sub :: "npfloat \<Rightarrow> npfloat \<Rightarrow> npfloat" where
  "np_sub x y = np_add x (np_neg y)"

text \<open>The infinity that has the sign of a non-zero real.\<close>

definition inf_of_sign :: "real \<Rightarrow> npfloat" where
  "inf_of_sign a = (if 0 < a then PInf else NInf)"

fun np_mul :: "npfloat \<Rightarrow> npfloat \<Rightarrow> npfloat" where
  "np_mul (Fin a) (Fin b) = Fin (a * b)"
| "np_mul (Fin a) PInf = (if a = 0 then NaN else inf_of_sign a)"
| "np_mul (Fin a) NInf = (if a = 0 then NaN else inf_of_sign (- a))"
| "np_mul PInf (Fin b) = (if b = 0 then NaN else inf_of_sign b)"
| "np_mul NInf (Fin b) = (if b = 0 then NaN else inf_of_sign (- b))"
| "np_mul PInf PInf = PInf"
| "np_mul PInf NInf = NInf"
| "np_mul NInf PInf = NInf"
| "np_mul NInf NInf = PInf"
| "np_mul NaN y = NaN"
| "np_mul x NaN = NaN"

text \<open>
  Division of numpy scalars never raises: \<^verbatim>\<open>x / 0.0\<close> is an infinity of the sign of
  \<^verbatim>\<open>x\<close>, and \<^verbatim>\<open>0.0 / 0.0\<close> is NaN.
\<close>

fun np_div :: "npfloat \<Rightarrow> npfloat \<Rightarrow> npfloat" where
  "np_div (Fin a) (Fin b) =
     (if b = 0 then (if a = 0 then NaN else inf_of_sign a) else Fin (a / b))"
| "np_div (Fin a) PInf = Fin 0"
| "np_div (Fin a) NInf = Fin 0"
| "np_div PInf (Fin b) = (if 0 \<le> b then PInf else NInf)"
| "np_div NInf (Fin b) = (if 0 \<le> b then NInf else PInf)"
| "np_div PInf PInf = NaN"
| "np_div PInf NInf = NaN"
| "np_div NInf PInf = NaN"
| "np_div NInf NInf = NaN"
| "np_div NaN y = NaN"
| "np_div x NaN = NaN"

fun np_log :: "npfloat \<Rightarrow> npfloat" where
  "np_log (Fin a) = (if 0 < a then Fin (ln a) else if a = 0 then NInf else NaN)"
| "np_log PInf = PInf"
| "np_log NInf = NaN"
| "np_log NaN = NaN"

fun np_sqrt :: "npfloat \<Rightarrow> npfloat" where
  "np_sqrt (Fin a) = (if 0 \<le> a then Fin (sqrt a) else NaN)"
| "np_sqrt PInf = PInf"
| "np_sqrt NInf = NaN"
| "np_sqrt NaN = NaN"

fun np_exp :: "npfloat \<Rightarrow> npfloat" where
  "np_exp (Fin a) = Fin (exp a)"
| "np_exp PInf = PInf"
| "np_exp NInf = Fin 0"
| "np_exp NaN = NaN"

text \<open>The comparison \<^verbatim>\<open><=\<close> of floats: false as soon as one side is NaN.\<close>

fun np_le :: "npfloat \<Rightarrow> npfloat \<Rightarrow> bool" where
  "np_le (Fin a) (Fin b) = (a \<le> b)"
| "np_le (Fin a) PInf = True"
| "np_le (Fin a) NInf = False"
| "np_le PInf (Fin b) = False"
| "np_le PInf PInf = True"
| "np_le PInf NInf = False"
| "np_le NInf (Fin b) = True"
| "np_le NInf PInf = True"
| "np_le NInf NInf = True"
| "np_le NaN y = False"
| "np_le x NaN = False"

fun isnan :: "npfloat \<Rightarrow> bool" where
  "isnan NaN = True"
| "isnan x = False"

fun isfinite :: "npfloat \<Rightarrow> bool" where
  "isfinite (Fin a) = True"
| "isfinite x = False"

definition np_sum :: "npfloat list \<Rightarrow> npfloat" where
  "np_sum xs = foldl np_add (Fin 0) xs"

section \<open>Errors and series\<close>

text \<open>
  The exceptions that the modelled code and the library calls it makes can raise.  The
  source defines no exception class of its own and has no \<^verbatim>\<open>raise\<close> statement; the
  last four names are the failures that the specification speaks of.
\<close>

datatype py_error =
    ValueError
  | IndexError
  | AssertionError
  | LibraryError
  | InsufficientDataError
  | InvalidDataError
  | InvalidParameterError
  | DegenerateSampleError

text \<open>
  A pandas Series, or a DataFrame of one column: the rows in order, each an index label
  (a timestamp, here an integer) and a value.
\<close>

type_synonym series = "(int \<times> npfloat) list"

definition index_of :: "series \<Rightarrow> int list" where
  "index_of df = map fst df"

definition to_numpy :: "series \<Rightarrow> npfloat list" where
  "to_numpy df = map snd df"

text \<open>
  \<^verbatim>\<open>pd.DataFrame(values, index=..., columns=[c])\<close> raises \<^verbatim>\<open>ValueError\<close> when the number
  of values differs from the number of index labels.
\<close>

definition pd_DataFrame :: "npfloat list \<Rightarrow> int list \<Rightarrow> py_error + series" where
  "pd_DataFrame vals idx =
     (if length vals = length idx then Inr (zip idx vals) else Inl ValueError)"

section \<open>Log returns\<close>

text \<open>\<^verbatim>\<open>dataframe.shift(1)\<close>: every value moves one row down, the first row becomes NaN.\<close>

definition shift1 :: "npfloat list \<Rightarrow> npfloat list" where
  "shift1 vals = (if vals = [] then [] else NaN # butlast vals)"

definition get_log_returns :: "series \<Rightarrow> py_error + series" where
  "get_log_returns dataframe =
     (let previous_returns = shift1 (to_numpy dataframe);
          dataframe_np = to_numpy dataframe;
          log_returns = map2 (\<lambda>x p. np_log (np_div x p)) dataframe_np previous_returns;
          log_returns = drop 1 log_returns
      in pd_DataFrame log_returns (butlast (index_of dataframe)))"

section \<open>Black-Scholes prices\<close>

text \<open>
  \<^verbatim>\<open>norm().cdf\<close> is scipy's standard normal distribution function.  It is a parameter
  \<open>Phi\<close> of the model, given on the reals; at the special values scipy returns the
  limits, and NaN for NaN.
\<close>

fun norm_cdf :: "(real \<Rightarrow> real) \<Rightarrow> npfloat \<Rightarrow> npfloat" where
  "norm_cdf Phi (Fin a) = Fin (Phi a)"
| "norm_cdf Phi PInf = Fin 1"
| "norm_cdf Phi NInf = Fin 0"
| "norm_cdf Phi NaN = NaN"

text \<open>
  The arguments are numpy scalars, as in the only call site (the spot price is read from
  a float column, the volatility is a numpy standard deviation), so that no division
  raises \<^verbatim>\<open>ZeroDivisionError\<close>.  The function has no check of its arguments.
\<close>

definition call_black_scholes ::
  "(real \<Rightarrow> real) \<Rightarrow> npfloat \<Rightarrow> npfloat \<Rightarrow> npfloat \<Rightarrow> npfloat \<Rightarrow> npfloat \<Rightarrow> py_error + npfloat" where
  "call_black_scholes Phi S_0 K log_vol rate delta_t =
     (let scale = np_div (Fin 1) (np_mul log_vol (np_sqrt delta_t));
          d_up = np_mul scale
                   (np_add (np_log (np_div S_0 K))
                      (np_mul delta_t
                         (np_add rate (np_mul (Fin (1/2)) (np_mul log_vol log_vol)))));
          d_down = np_sub d_up (np_mul log_vol (np_sqrt delta_t));
          discount_rate = np_exp (np_mul (np_neg rate) delta_t);
          d_up_cum = norm_cdf Phi d_up;
          d_down_cum = norm_cdf Phi d_down;
          call_value = np_sub (np_mul S_0 d_up_cum) (np_mul (np_mul K discount_rate) d_down_cum)
      in Inr call_value)"

definition put_black_scholes ::
  "(real \<Rightarrow> real) \<Rightarrow> npfloat \<Rightarrow> npfloat \<Rightarrow> npfloat \<Rightarrow> npfloat \<Rightarrow> npfloat \<Rightarrow> py_error + npfloat" where
  "put_black_scholes Phi S_0 K log_vol rate delta_t =
     (case call_black_scholes Phi S_0 K log_vol rate delta_t of
        Inl e \<Rightarrow> Inl e
      | Inr call_value \<Rightarrow>
          Inr (np_add (np_sub call_value S_0) (np_mul K (np_exp (np_mul (np_neg rate) delta_t)))))"

section \<open>Quantiles and means\<close>

text \<open>
  \<^verbatim>\<open>np.quantile(a, q)\<close> with its default method, \<^verbatim>\<open>linear\<close>.  numpy refuses a \<^verbatim>\<open>q\<close>
  outside \<open>[0, 1]\<close> with \<^verbatim>\<open>ValueError\<close>, fails with \<^verbatim>\<open>IndexError\<close> on an empty array,
  and returns NaN as soon as the array holds a NaN.  Otherwise it sorts the values, takes
  the virtual index \<open>(n - 1) * q\<close>, and interpolates between the values at the two
  integer positions around it.
\<close>

fun np_insort :: "npfloat \<Rightarrow> npfloat list \<Rightarrow> npfloat list" where
  "np_insort x [] = [x]"
| "np_insort x (y # ys) = (if np_le x y then x # y # ys else y # np_insort x ys)"

definition np_sort :: "npfloat list \<Rightarrow> npfloat list" where
  "np_sort xs = foldr np_insort xs []"

text \<open>
  numpy's interpolation step: \<open>a + (b - a) * t\<close>, replaced by \<open>b - (b - a) * (1 - t)\<close>
  where \<open>t \<ge> 0.5\<close>.
\<close>

definition np_lerp :: "npfloat \<Rightarrow> npfloat \<Rightarrow> real \<Rightarrow> npfloat" where
  "np_lerp a b t =
     (let diff_b_a = np_sub b a;
          lerp_interpolation = np_add a (np_mul diff_b_a (Fin t))
      in if 1/2 \<le> t then np_sub b (np_mul diff_b_a (Fin (1 - t))) else lerp_interpolation)"

definition np_quantile :: "npfloat list \<Rightarrow> real \<Rightarrow> py_error + npfloat" where
  "np_quantile a q =
     (if \<not> (0 \<le> q \<and> q \<le> 1) then Inl ValueError
      else if a = [] then Inl IndexError
      else if list_ex isnan a then Inr NaN
      else
        let arr = np_sort a;
            values_count = length a;
            virtual_index = real (values_count - 1) * q;
            above_bounds = (real (values_count - 1) \<le> virtual_index);
            previous_index = nat \<lfloor>virtual_index\<rfloor>;
            previous = (if above_bounds then last arr else arr ! previous_index);
            next = (if above_bounds then last arr else arr ! (previous_index + 1));
            gamma = (if above_bounds then virtual_index + 1
                     else virtual_index - real previous_index)
        in Inr (np_lerp previous next gamma))"

text \<open>
  The mean of a pandas column skips NaN; the mean of no value at all is NaN, without an
  exception.
\<close>

definition pd_mean :: "npfloat list \<Rightarrow> npfloat" where
  "pd_mean vals =
     (let xs = filter (\<lambda>v. \<not> isnan v) vals
      in if xs = [] then NaN else np_div (np_sum xs) (Fin (real (length xs))))"

section \<open>Historical value at risk\<close>

text \<open>
  \<^verbatim>\<open>rolling(w).sum()\<close>: row \<open>i\<close> holds the sum of the \<open>w\<close> values that end at row \<open>i\<close>,
  and NaN while fewer than \<open>w\<close> rows are there (or when a value in the window is NaN).
  pandas refuses a negative window with \<^verbatim>\<open>ValueError\<close>.  \<^verbatim>\<open>dropna()\<close> removes the
  rows whose value is NaN.
\<close>

definition rolling_sum :: "int \<Rightarrow> series \<Rightarrow> py_error + series" where
  "rolling_sum window df =
     (if window < 0 then Inl ValueError
      else
        let w = nat window; vals = to_numpy df
        in Inr (map (\<lambda>i. (index_of df ! i,
                            if i + 1 < w then NaN else np_sum (take w (drop (i + 1 - w) vals))))
                  [0..<length df]))"

definition dropna :: "series \<Rightarrow> series" where
  "dropna df = filter (\<lambda>row. \<not> isnan (snd row)) df"

definition get_var_cvar :: "series \<Rightarrow> int \<Rightarrow> real \<Rightarrow> py_error + npfloat \<times> npfloat" where
  "get_var_cvar dataframe rolling_window p_value =
     (case get_log_returns dataframe of
        Inl e \<Rightarrow> Inl e
      | Inr log_returns \<Rightarrow>
          (case rolling_sum rolling_window log_returns of
             Inl e \<Rightarrow> Inl e
           | Inr rolled \<Rightarrow>
               let sum_log_returns = dropna rolled
               in (case np_quantile (to_numpy sum_log_returns) p_value of
                     Inl e \<Rightarrow> Inl e
                   | Inr log_value_at_risk \<Rightarrow>
                       let log_expected_shortfall =
                             pd_mean (to_numpy
                               (filter (\<lambda>row. np_le (snd row) log_value_at_risk) sum_log_returns))
                       in Inr (log_value_at_risk, log_expected_shortfall))))"

section \<open>Monte Carlo value at risk\<close>



section \<open>Walk-forward volatility forecast\<close>

text \<open>
  The part of \<^verbatim>\<open>main\<close> that scales the rolling sums, splits them 80/20, refits the
  GARCH model on a sample that grows by one test row per step, and checks at the end
  that the grown sample is the whole series.  The \<^verbatim>\<open>arch\<close> library is the pair of
  parameters \<open>fit\<close> (build and fit a model on a sample) and \<open>forecast\<close> (the one-step
  variance forecast of a fitted model); either may raise.
\<close>

definition garch_data :: "series \<Rightarrow> series" where
  "garch_data sum_log_returns = map (\<lambda>row. (fst row, np_mul (Fin 1000) (snd row))) sum_log_returns"

text \<open>\<^verbatim>\<open>int(len(garch_data)*0.8)\<close>: the product is truncated towards zero.\<close>

definition split_index :: "series \<Rightarrow> nat" where
  "split_index g = nat \<lfloor>real (length g) * 0.8\<rfloor>"

definition training_data :: "series \<Rightarrow> series" where
  "training_data g = take (split_index g) g"

definition testing_data :: "series \<Rightarrow> series" where
  "testing_data g = drop (split_index g) g"

record 'm wf_state =
  model_fit :: 'm
  forcasted_values :: "npfloat list"
  conditional_training_data :: series

fun walk_forward_loop ::
  "(series \<Rightarrow> py_error + 'm) \<Rightarrow> ('m \<Rightarrow> py_error + npfloat) \<Rightarrow> series \<Rightarrow> nat list
     \<Rightarrow> 'm wf_state \<Rightarrow> py_error + 'm wf_state" where
  "walk_forward_loop fit forecast testing [] s = Inr s"
| "walk_forward_loop fit forecast testing (i # rest) s =
     (case forecast (model_fit s) of
        Inl e \<Rightarrow> Inl e
      | Inr prediction \<Rightarrow>
          let fv = (forcasted_values s)[i := np_sqrt prediction];
              ctd = conditional_training_data s @ take 1 (drop i testing)
          in (case fit ctd of
                Inl e \<Rightarrow> Inl e
              | Inr m \<Rightarrow>
                  walk_forward_loop fit forecast testing rest
                    \<lparr>model_fit = m, forcasted_values = fv, conditional_training_data = ctd\<rparr>))"

definition walk_forward ::
  "(series \<Rightarrow> py_error + 'm) \<Rightarrow> ('m \<Rightarrow> py_error + npfloat) \<Rightarrow> series \<Rightarrow> py_error + 'm wf_state" where
  "walk_forward fit forecast g =
     (let training = training_data g;
          testing = testing_data g
      in (case fit training of
            Inl e \<Rightarrow> Inl e
          | Inr m \<Rightarrow>
              (case walk_forward_loop fit forecast testing [0..<length testing]
                      \<lparr>model_fit = m,
                       forcasted_values = replicate (length testing) NaN,
                       conditional_training_data = training\<rparr> of
                 Inl e \<Rightarrow> Inl e
               | Inr s \<Rightarrow>
                   if conditional_training_data s = g then Inr s else Inl AssertionError)))"

text \<open>
  The forecasted value at risk: the volatilities are divided by 1000, multiplied by
  \<^verbatim>\<open>norm().ppf(0.05)\<close> and exponentiated.  scipy's quantile function of the standard
  normal distribution is the parameter \<open>ppf\<close>.
\<close>

definition forecasted_var :: "(real \<Rightarrow> real) \<Rightarrow> npfloat list \<Rightarrow> npfloat list" where
  "forecasted_var ppf fv =
     (let v = map (\<lambda>x. np_div x (Fin 1000)) fv;
          v = map (\<lambda>x. np_mul x (Fin (ppf 0.05))) v
      in map np_exp v)"

section \<open>The specification's formulas\<close>

text \<open>The Black-Scholes call price as the specification writes it.\<close>

definition spec_d1 :: "real \<Rightarrow> real \<Rightarrow> real \<Rightarrow> real \<Rightarrow> real \<Rightarrow> real" where
  "spec_d1 S0 K sigma r T = (ln (S0 / K) + (r + 0.5 * sigma\<^sup>2) * T) / (sigma * sqrt T)"

definition spec_d2 :: "real \<Rightarrow> real \<Rightarrow> real \<Rightarrow> real \<Rightarrow> real \<Rightarrow> real" where
  "spec_d2 S0 K sigma r T = spec_d1 S0 K sigma r T - sigma * sqrt T"

definition spec_call :: "(real \<Rightarrow> real) \<Rightarrow> real \<Rightarrow> real \<Rightarrow> real \<Rightarrow> real \<Rightarrow> real \<Rightarrow> real" where
  "spec_call Phi S0 K sigma r T =
     S0 * Phi (spec_d1 S0 K sigma r T) - K * exp (- r * T) * Phi (spec_d2 S0 K sigma r T)"

text \<open>
  The log returns and their rolling sums as the specification writes them: return \<open>i\<close>
  is \<open>ln (price (i + 1) / price i)\<close>, and rolling sum \<open>j\<close> adds the \<open>w\<close> returns from
  position \<open>j\<close> on, for the \<open>length - w + 1\<close> positions where a full window exists.
\<close>

definition spec_log_returns :: "real list \<Rightarrow> real list" where
  "spec_log_returns ps = map (\<lambda>i. ln (ps ! Suc i / ps ! i)) [0..<length ps - 1]"

definition spec_rolling_sums :: "nat \<Rightarrow> real list \<Rightarrow> real list" where
  "spec_rolling_sums w rs = map (\<lambda>j. sum_list (take w (drop j rs))) [0..<length rs + 1 - w]"

text \<open>
  The empirical quantile of type 7 (Hyndman and Fan): with the order statistics
  \<open>x\<^sub>1 \<le> \<dots> \<le> x\<^sub>n\<close> and \<open>h = (n - 1) p + 1\<close>, it is
  \<open>x\<^bsub>\<lfloor>h\<rfloor>\<^esub> + (h - \<lfloor>h\<rfloor>) (x\<^bsub>\<lfloor>h\<rfloor> + 1\<^esub> - x\<^bsub>\<lfloor>h\<rfloor>\<^esub>)\<close>, where \<open>x\<^bsub>n + 1\<^esub>\<close> stands for \<open>x\<^sub>n\<close>.
\<close>

definition order_stat :: "real list \<Rightarrow> nat \<Rightarrow> real" where
  "order_stat xs k = sort xs ! (min k (length xs) - 1)"

definition type7_quantile :: "real list \<Rightarrow> real \<Rightarrow> real" where
  "type7_quantile xs p =
     (let h = real (length xs - 1) * p + 1;
          j = nat \<lfloor>h\<rfloor>
      in order_stat xs j + (h - real j) * (order_stat xs (j + 1) - order_stat xs j))"

definition mean :: "real list \<Rightarrow> real" where
  "mean xs = sum_list xs / real (length xs)"

text \<open>The values of a sample that are at or below a threshold.\<close>

definition tail_at :: "real \<Rightarrow> real list \<Rightarrow> real list" where
  "tail_at v xs = filter (\<lambda>x. x \<le> v) xs"


text \<open>A distribution function to evaluate the prices at concrete arguments.\<close>

definition logistic_cdf :: "real \<Rightarrow> real" where
  "logistic_cdf x = 1 / (1 + exp (- x))"

section \<open>Log returns: proofs\<close>

lemma shift1_length: "length (shift1 vals) = length vals"
  by (cases vals) (simp_all add: shift1_def)

lemma shift1_nth: "Suc i < length vals \<Longrightarrow> shift1 vals ! Suc i = vals ! i"
  by (cases vals) (simp_all add: shift1_def nth_butlast del: butlast.simps)

lemma get_log_returns_rows:
  "\<exists>out. get_log_returns df = Inr out \<and> length out = length df - 1 \<and>
     (\<forall>i < length out. out ! i = (fst (df ! i), np_log (np_div (snd (df ! Suc i)) (snd (df ! i)))))"
proof -
  let ?vals = "drop 1 (map2 (\<lambda>x p. np_log (np_div x p)) (to_numpy df) (shift1 (to_numpy df)))"
  let ?idx = "butlast (index_of df)"
  have len: "length ?vals = length ?idx"
    by (simp add: shift1_length to_numpy_def index_of_def)
  have res: "get_log_returns df = Inr (zip ?idx ?vals)"
    using len by (simp add: get_log_returns_def pd_DataFrame_def Let_def)
  have n: "length (zip ?idx ?vals) = length df - 1"
    by (simp add: shift1_length to_numpy_def index_of_def)
  have "zip ?idx ?vals ! i = (fst (df ! i), np_log (np_div (snd (df ! Suc i)) (snd (df ! i))))"
    if "i < length (zip ?idx ?vals)" for i
  proof -
    from that have i: "Suc i < length df"
      by (simp add: shift1_length to_numpy_def index_of_def)
    then have "shift1 (to_numpy df) ! Suc i = snd (df ! i)"
      by (simp add: shift1_nth to_numpy_def)
    with i that show ?thesis
      by (simp add: nth_butlast index_of_def to_numpy_def shift1_length)
  qed
  with res n show ?thesis by blast
qed

lemma exp_taylor4:
  fixes x :: real
  assumes "\<bar>x\<bar> \<le> 1"
  shows "1 + x + x^2 / 2 + x^3 / 6 \<le> exp x"
    and "exp x \<le> 1 + x + x^2 / 2 + x^3 / 6 + x^4 / 8"
proof -
  obtain t where t: "\<bar>t\<bar> \<le> \<bar>x\<bar>"
    and e: "exp x = (\<Sum>m<4. x ^ m / fact m) + exp t / fact 4 * x ^ 4"
    using Maclaurin_exp_le [of x 4] by blast
  have s: "(\<Sum>m<4. x ^ m / fact m) = 1 + x + x^2 / 2 + x^3 / 6"
    by (simp add: eval_nat_numeral lessThan_Suc)
  have f: "fact 4 = (24::real)"
    by (simp add: eval_nat_numeral)
  have x4: "0 \<le> x ^ 4" by simp
  have "exp t \<le> exp 1" using t assms by simp
  also have "\<dots> \<le> 3" by (rule exp_le)
  finally have et: "exp t \<le> 3" .
  have r: "exp t / 24 * x ^ 4 \<le> x ^ 4 / 8"
  proof -
    have "exp t / 24 * x ^ 4 \<le> 3 / 24 * x ^ 4"
      using et x4 by (intro mult_right_mono divide_right_mono) simp_all
    then show ?thesis by simp
  qed
  have r0: "0 \<le> exp t / 24 * x ^ 4"
    using x4 by simp
  show "1 + x + x^2 / 2 + x^3 / 6 \<le> exp x"
    using r0 unfolding e s f by linarith
  show "exp x \<le> 1 + x + x^2 / 2 + x^3 / 6 + x^4 / 8"
    using r unfolding e s f by linarith
qed

lemma ln_lower:
  fixes a y :: real
  shows "0 < y \<Longrightarrow> \<bar>a\<bar> \<le> 1 \<Longrightarrow> 1 + a + a^2 / 2 + a^3 / 6 + a^4 / 8 \<le> y \<Longrightarrow> a \<le> ln y"
  using exp_taylor4(2) [of a] by (simp add: ln_ge_iff)

lemma ln_upper:
  fixes b y :: real
  assumes "0 < y" "\<bar>b\<bar> \<le> 1" "y \<le> 1 + b + b^2 / 2 + b^3 / 6"
  shows "ln y \<le> b"
proof -
  have "y \<le> exp b"
    using exp_taylor4(1) [OF assms(2)] assms(3) by linarith
  then have "ln y \<le> ln (exp b)"
    using assms(1) by (subst ln_le_cancel_iff) simp_all
  then show ?thesis by simp
qed

lemma ln_21_20: "0.04878 \<le> ln (21 / 20 :: real)" "ln (21 / 20 :: real) \<le> 0.04880"
  by (rule ln_lower; simp add: power2_eq_square power3_eq_cube power4_eq_xxxx)
     (rule ln_upper; simp add: power2_eq_square power3_eq_cube power4_eq_xxxx)

lemma ln_14_15: "- 0.06900 \<le> ln (14 / 15 :: real)" "ln (14 / 15 :: real) \<le> - 0.06898"
  by (rule ln_lower; simp add: power2_eq_square power3_eq_cube power4_eq_xxxx)
     (rule ln_upper; simp add: power2_eq_square power3_eq_cube power4_eq_xxxx)

lemma ln_51_49: "0.04000 \<le> ln (51 / 49 :: real)" "ln (51 / 49 :: real) \<le> 0.04002"
  by (rule ln_lower; simp add: power2_eq_square power3_eq_cube power4_eq_xxxx)
     (rule ln_upper; simp add: power2_eq_square power3_eq_cube power4_eq_xxxx)

lemma ln_55_51: "0.07550 \<le> ln (55 / 51 :: real)" "ln (55 / 51 :: real) \<le> 0.07552"
  by (rule ln_lower; simp add: power2_eq_square power3_eq_cube power4_eq_xxxx)
     (rule ln_upper; simp add: power2_eq_square power3_eq_cube power4_eq_xxxx)

lemma toy_log_returns:
  "get_log_returns [(0, Fin 100), (1, Fin 105), (2, Fin 98), (3, Fin 102), (4, Fin 110)] =
     Inr [(0, Fin (ln (21 / 20))), (1, Fin (ln (14 / 15))), (2, Fin (ln (51 / 49))),
          (3, Fin (ln (55 / 51)))]"
  by (simp add: get_log_returns_def pd_DataFrame_def shift1_def to_numpy_def index_of_def)

text \<open>
  Claim C2, as stated, at the prices 100, 105, 98, 102, 110: the second log return is
  \<open>ln (98 / 105)\<close>, which is below \<open>- 0.06898\<close>; it is more than \<open>0.0005\<close> away from the
  value \<open>- 0.06841\<close> that the claim gives to five decimal places.
\<close>

theorem toy_log_returns_second_value:
  "get_log_returns [(0, Fin 100), (1, Fin 105), (2, Fin 98), (3, Fin 102), (4, Fin 110)] =
     Inr [(0, Fin (ln (21 / 20))), (1, Fin (ln (14 / 15))), (2, Fin (ln (51 / 49))),
          (3, Fin (ln (55 / 51)))]
   \<and> 0.0005 < \<bar>ln (14 / 15 :: real) - (- 0.06841)\<bar>"
proof -
  have "ln (14 / 15 :: real) \<le> - 0.06898" by (rule ln_14_15)
  then have "0.0005 < \<bar>ln (14 / 15 :: real) - (- 0.06841)\<bar>" by simp
  with toy_log_returns show ?thesis by simp
qed

text \<open>
  Claim C2 (amended).  For a price series with at least two prices, all strictly
  positive, \<open>get_log_returns\<close> returns a series with one row less than the input, whose
  row \<open>i\<close> carries the earlier timestamp \<open>i\<close> and the value \<open>ln (price (i + 1) / price i)\<close>.
  For the prices 100, 105, 98, 102, 110 the four values are within \<open>0.00001\<close> of
  0.04879, -0.06899, 0.04001 and 0.07551.
\<close>

theorem log_returns_values:
  assumes "length ts = length ps" and "2 \<le> length ps" and "\<forall>p \<in> set ps. 0 < p"
  shows "(\<exists>out. get_log_returns (zip ts (map Fin ps)) = Inr out
            \<and> length out = length ps - 1
            \<and> (\<forall>i < length out. out ! i = (ts ! i, Fin (ln (ps ! Suc i / ps ! i)))))
         \<and> (\<exists>v1 v2 v3 v4.
              get_log_returns [(0, Fin 100), (1, Fin 105), (2, Fin 98), (3, Fin 102), (4, Fin 110)]
                = Inr [(0, Fin v1), (1, Fin v2), (2, Fin v3), (3, Fin v4)]
              \<and> \<bar>v1 - 0.04879\<bar> \<le> 0.00001 \<and> \<bar>v2 - (- 0.06899)\<bar> \<le> 0.00001
              \<and> \<bar>v3 - 0.04001\<bar> \<le> 0.00001 \<and> \<bar>v4 - 0.07551\<bar> \<le> 0.00001)"
proof
  let ?df = "zip ts (map Fin ps)"
  obtain out where out: "get_log_returns ?df = Inr out" "length out = length ?df - 1"
    and rows: "\<And>i. i < length out \<Longrightarrow>
                 out ! i = (fst (?df ! i), np_log (np_div (snd (?df ! Suc i)) (snd (?df ! i))))"
    using get_log_returns_rows [of ?df] by blast
  have n: "length out = length ps - 1"
    using out(2) assms(1) by simp
  have "out ! i = (ts ! i, Fin (ln (ps ! Suc i / ps ! i)))" if i: "i < length out" for i
  proof -
    from i n have lt: "Suc i < length ps" by simp
    then have pos: "0 < ps ! i" "0 < ps ! Suc i"
      using assms(3) by (simp_all add: all_set_conv_all_nth)
    show ?thesis
      using rows [OF i] lt pos assms(1) by simp
  qed
  with out(1) n
  show "\<exists>out. get_log_returns ?df = Inr out \<and> length out = length ps - 1
          \<and> (\<forall>i < length out. out ! i = (ts ! i, Fin (ln (ps ! Suc i / ps ! i))))"
    by blast
next
  have "\<bar>ln (21 / 20 :: real) - 0.04879\<bar> \<le> 0.00001"
    using ln_21_20 by linarith
  moreover have "\<bar>ln (14 / 15 :: real) - (- 0.06899)\<bar> \<le> 0.00001"
    using ln_14_15 by linarith
  moreover have "\<bar>ln (51 / 49 :: real) - 0.04001\<bar> \<le> 0.00001"
    using ln_51_49 by linarith
  moreover have "\<bar>ln (55 / 51 :: real) - 0.07551\<bar> \<le> 0.00001"
    using ln_55_51 by linarith
  ultimately show "\<exists>v1 v2 v3 v4.
      get_log_returns [(0, Fin 100), (1, Fin 105), (2, Fin 98), (3, Fin 102), (4, Fin 110)]
        = Inr [(0, Fin v1), (1, Fin v2), (2, Fin v3), (3, Fin v4)]
      \<and> \<bar>v1 - 0.04879\<bar> \<le> 0.00001 \<and> \<bar>v2 - (- 0.06899)\<bar> \<le> 0.00001
      \<and> \<bar>v3 - 0.04001\<bar> \<le> 0.00001 \<and> \<bar>v4 - 0.07551\<bar> \<le> 0.00001"
    using toy_log_returns by blast
qed

text \<open>
  The amended claim C2 at the prices 1, 2, 4: both returns are \<open>ln 2\<close>.
\<close>

theorem log_returns_values_witness:
  "length [0, 1, 2 :: int] = length [1, 2, 4 :: real] \<and> 2 \<le> length [1, 2, 4 :: real]
   \<and> (0::real) < 1 \<and> (0::real) < 2 \<and> (0::real) < 4
   \<and> (\<exists>out. get_log_returns [(0, Fin 1), (1, Fin 2), (2, Fin 4)] = Inr out
          \<and> length out = 2 \<and> out ! 0 = (0, Fin (ln 2)) \<and> out ! 1 = (1, Fin (ln 2)))"
  using log_returns_values [of "[0, 1, 2]" "[1, 2, 4]"] by auto

lemma call_black_scholes_finite:
  assumes "0 < S0" "0 < K" "0 < sigma" "0 < T"
  shows "call_black_scholes Phi (Fin S0) (Fin K) (Fin sigma) (Fin r) (Fin T) =
           Inr (Fin (spec_call Phi S0 K sigma r T))"
proof -
  have nz: "sigma * sqrt T \<noteq> 0" using assms by simp
  have arg: "ln (S0 / K) + T * (r + 1 / 2 * (sigma * sigma))
               = ln (S0 / K) + (r + 0.5 * sigma\<^sup>2) * T"
    by (simp add: power2_eq_square algebra_simps)
  have d1: "1 / (sigma * sqrt T) * (ln (S0 / K) + T * (r + 1 / 2 * (sigma * sigma)))
              = spec_d1 S0 K sigma r T"
    unfolding spec_d1_def arg by simp
  show ?thesis
    using assms nz d1
    by (simp add: call_black_scholes_def Let_def np_sub_def spec_call_def spec_d2_def)
qed

text \<open>
  Claim C5.  For a positive spot, strike, volatility and expiry and a non-negative rate,
  \<open>call_black_scholes\<close> returns the Black-Scholes call price of the specification,
  \<open>S0 \<Phi>(d1) - K exp (- r T) \<Phi>(d2)\<close>, and no special value.
\<close>

theorem call_black_scholes_formula:
  assumes "0 < S0" "0 < K" "0 < sigma" "0 \<le> r" "0 < T"
  shows "call_black_scholes Phi (Fin S0) (Fin K) (Fin sigma) (Fin r) (Fin T) =
           Inr (Fin (S0 * Phi (spec_d1 S0 K sigma r T)
                     - K * exp (- r * T) * Phi (spec_d2 S0 K sigma r T)))"
  using call_black_scholes_finite [OF assms(1,2,3,5)] by (simp add: spec_call_def)

text \<open>
  Claim C5 at spot 100, strike 90, volatility 0.2, rate 0.01 and one year.
\<close>

theorem call_black_scholes_formula_witness:
  "(0::real) < 100 \<and> (0::real) < 90 \<and> (0::real) < 1/5 \<and> (0::real) \<le> 1/100 \<and> (0::real) < 1
   \<and> call_black_scholes logistic_cdf (Fin 100) (Fin 90) (Fin (1/5)) (Fin (1/100)) (Fin 1) =
         Inr (Fin (100 * logistic_cdf (spec_d1 100 90 (1/5) (1/100) 1)
                   - 90 * exp (- (1/100) * 1) * logistic_cdf (spec_d2 100 90 (1/5) (1/100) 1)))"
  using call_black_scholes_formula [of 100 90 "1/5" "1/100" 1 logistic_cdf] by simp

text \<open>
  Claim C6.  For positive arguments the put is the call minus the spot plus the
  discounted strike, and the call minus the put is \<open>S0 - K exp (- r T)\<close>.
\<close>

theorem put_call_parity:
  assumes "0 < S0" "0 < K" "0 < sigma" "0 < r" "0 < T"
  shows "\<exists>c p. call_black_scholes Phi (Fin S0) (Fin K) (Fin sigma) (Fin r) (Fin T) = Inr c
           \<and> put_black_scholes Phi (Fin S0) (Fin K) (Fin sigma) (Fin r) (Fin T) = Inr p
           \<and> p = np_add (np_sub c (Fin S0)) (np_mul (Fin K) (np_exp (np_mul (np_neg (Fin r)) (Fin T))))
           \<and> np_sub c p = Fin (S0 - K * exp (- r * T))"
  using call_black_scholes_finite [OF assms(1,2,3,5), of Phi r]
  by (simp add: put_black_scholes_def np_sub_def)

text \<open>
  Claim C6 at spot 100, strike 90, volatility 0.2, rate 0.01 and one year.
\<close>

theorem put_call_parity_witness:
  "(0::real) < 100 \<and> (0::real) < 90 \<and> (0::real) < 1/5 \<and> (0::real) < 1/100 \<and> (0::real) < 1
   \<and> (\<exists>c p. call_black_scholes logistic_cdf (Fin 100) (Fin 90) (Fin (1/5)) (Fin (1/100)) (Fin 1) = Inr c
           \<and> put_black_scholes logistic_cdf (Fin 100) (Fin 90) (Fin (1/5)) (Fin (1/100)) (Fin 1) = Inr p
           \<and> np_sub c p = Fin (100 - 90 * exp (- (1/100))))"
  using put_call_parity [of 100 90 "1/5" "1/100" 1 logistic_cdf] by auto




text \<open>
  Claim C9, as stated, at three inputs: a single price gives the empty series and no
  error; the negative prices -1, -2 give the finite return \<open>ln 2\<close>; and a price of zero
  followed by 5 gives an infinite return.
\<close>

theorem get_log_returns_no_rejection:
  "get_log_returns [(0, Fin 100)] = Inr []
   \<and> get_log_returns [(0, Fin (- 1)), (1, Fin (- 2))] = Inr [(0, Fin (ln 2))]
   \<and> get_log_returns [(0, Fin 0), (1, Fin 5)] = Inr [(0, PInf)]"
  by (simp add: get_log_returns_def pd_DataFrame_def shift1_def to_numpy_def index_of_def
        inf_of_sign_def)

text \<open>
  Claim C9 (amended).  \<open>get_log_returns\<close> checks nothing and raises no error: for every
  input it returns a series with one row less than the input (none for an empty input),
  so the empty series when there are fewer than two prices; row \<open>i\<close> is numpy's
  logarithm of the ratio of price \<open>i + 1\<close> to price \<open>i\<close>, a special value where a price
  is not positive.
\<close>

theorem get_log_returns_unchecked:
  "\<exists>out. get_log_returns df = Inr out \<and> length out = length df - 1
      \<and> (length df < 2 \<longrightarrow> out = [])
      \<and> (\<forall>i < length out.
            out ! i = (fst (df ! i), np_log (np_div (snd (df ! Suc i)) (snd (df ! i)))))"
proof -
  obtain out where out: "get_log_returns df = Inr out" "length out = length df - 1"
    "\<forall>i < length out. out ! i = (fst (df ! i), np_log (np_div (snd (df ! Suc i)) (snd (df ! i))))"
    using get_log_returns_rows [of df] by blast
  have "length df < 2 \<longrightarrow> out = []"
    using out(2) by auto
  with out show ?thesis by blast
qed

text \<open>
  The amended claim C9 at a single price, and at the prices 4, 0, whose return is minus
  infinity.
\<close>

theorem get_log_returns_unchecked_witness:
  "get_log_returns [(7, Fin 3)] = Inr []
   \<and> (\<exists>out. get_log_returns [(0, Fin 4), (1, Fin 0)] = Inr out \<and> out ! 0 = (0, NInf))"
  using get_log_returns_unchecked [of "[(7, Fin 3)]"]
        get_log_returns_unchecked [of "[(0, Fin 4), (1, Fin 0)]"]
  by auto

section \<open>Walk-forward: proofs\<close>

lemma row_slices_concat:
  "k \<le> length xs \<Longrightarrow> concat (map (\<lambda>i. take 1 (drop i xs)) [0..<k]) = take k xs"
proof (induction k)
  case 0
  then show ?case by simp
next
  case (Suc k)
  then have k: "k < length xs" by simp
  then have "take 1 (drop k xs) = [xs ! k]"
    by (simp add: take_Suc_conv_app_nth)
  with Suc k show ?case
    by (simp add: take_Suc_conv_app_nth)
qed

lemma walk_forward_loop_sample:
  "walk_forward_loop fit forecast testing steps s = Inr s' \<Longrightarrow>
     conditional_training_data s' =
       conditional_training_data s @ concat (map (\<lambda>i. take 1 (drop i testing)) steps)
     \<and> length (forcasted_values s') = length (forcasted_values s)"
proof (induction steps arbitrary: s)
  case Nil
  then show ?case by simp
next
  case (Cons i rest)
  from Cons.prems obtain prediction m where
    f: "forecast (model_fit s) = Inr prediction"
    and m: "fit (conditional_training_data s @ take 1 (drop i testing)) = Inr m"
    and r: "walk_forward_loop fit forecast testing rest
              \<lparr>model_fit = m,
               forcasted_values = (forcasted_values s)[i := np_sqrt prediction],
               conditional_training_data = conditional_training_data s @ take 1 (drop i testing)\<rparr>
            = Inr s'"
    by (auto simp: Let_def split: sum.splits)
  from Cons.IH [OF r] show ?case by simp
qed

lemma split_rejoins: "training_data g @ testing_data g = g"
  by (simp add: training_data_def testing_data_def)

text \<open>
  Claim C1.  When the first fit succeeds and the loop over the test rows runs to its end
  (every forecast and every refit returns), the expanded training sample is the training
  part followed by the test part, row for row and in order; that is the whole series, so
  the assertion after the loop holds and the run returns its final state, with one
  forecast per test row.  This holds for every series, whatever the number of test rows.
\<close>

theorem walk_forward_continuity:
  assumes "fit (training_data g) = Inr m"
    and "walk_forward_loop fit forecast (testing_data g) [0..<length (testing_data g)]
           \<lparr>model_fit = m,
            forcasted_values = replicate (length (testing_data g)) NaN,
            conditional_training_data = training_data g\<rparr> = Inr s"
  shows "conditional_training_data s = training_data g @ testing_data g
         \<and> conditional_training_data s = g
         \<and> length (forcasted_values s) = length (testing_data g)
         \<and> walk_forward fit forecast g = Inr s"
proof -
  have j: "concat (map (\<lambda>i. take 1 (drop i (testing_data g))) [0..<length (testing_data g)])
             = testing_data g"
    using row_slices_concat [of "length (testing_data g)" "testing_data g"] by simp
  have c: "conditional_training_data s = training_data g @ testing_data g"
    and l: "length (forcasted_values s) = length (testing_data g)"
    using walk_forward_loop_sample [OF assms(2)] j by simp_all
  from c have e: "conditional_training_data s = g"
    by (simp add: split_rejoins)
  have "walk_forward fit forecast g = Inr s"
    using assms e by (simp add: walk_forward_def Let_def)
  with c e l show ?thesis by simp
qed

text \<open>
  Claim C1 on a series of five rows (four to train on, one to test), with a fit that
  records the size of its sample and a forecast that is always 1.
\<close>

theorem walk_forward_continuity_witness:
  "walk_forward (\<lambda>sample. Inr (length sample)) (\<lambda>m. Inr (Fin 1))
     [(0, Fin 1), (1, Fin 2), (2, Fin 3), (3, Fin 4), (4, Fin 5)]
   = Inr \<lparr>model_fit = 5, forcasted_values = [Fin 1],
          conditional_training_data = [(0, Fin 1), (1, Fin 2), (2, Fin 3), (3, Fin 4), (4, Fin 5)]\<rparr>"
  using walk_forward_continuity
          [of "\<lambda>sample. Inr (length sample)"
              "[(0, Fin 1), (1, Fin 2), (2, Fin 3), (3, Fin 4), (4, Fin 5)]" 4
              "\<lambda>m. Inr (Fin 1)"
              "\<lparr>model_fit = 5, forcasted_values = [Fin 1],
                conditional_training_data = [(0, Fin 1), (1, Fin 2), (2, Fin 3), (3, Fin 4), (4, Fin 5)]\<rparr>"]
  by (simp add: training_data_def testing_data_def split_index_def)

lemma scale_inverts: "np_div (np_mul (Fin 1000) x) (Fin 1000) = x"
  by (cases x) (simp_all add: inf_of_sign_def)

text \<open>
  Claim C3.  The forecasted value at risk of a volatility \<open>v\<close> is
  \<open>exp ((v / 1000) * ppf 0.05)\<close>; the data given to the GARCH fit is the rolling sums
  multiplied by the same constant 1000 (the index unchanged), so that dividing it by 1000
  gives the rolling sums back, and a volatility of \<open>1000 \<sigma>\<close> on the scaled data is
  reported as \<open>exp (\<sigma> * ppf 0.05)\<close>.
\<close>

theorem forecasted_var_inverts_scale:
  "forecasted_var ppf fv = map (\<lambda>x. np_exp (np_mul (np_div x (Fin 1000)) (Fin (ppf 0.05)))) fv
   \<and> forecasted_var ppf (map Fin vols) = map (\<lambda>v. Fin (exp ((v / 1000) * ppf 0.05))) vols
   \<and> to_numpy (garch_data df) = map (np_mul (Fin 1000)) (to_numpy df)
   \<and> index_of (garch_data df) = index_of df
   \<and> map (\<lambda>x. np_div x (Fin 1000)) (to_numpy (garch_data df)) = to_numpy df
   \<and> forecasted_var ppf (map (\<lambda>sigma. Fin (1000 * sigma)) sigmas)
        = map (\<lambda>sigma. Fin (exp (sigma * ppf 0.05))) sigmas"
proof -
  have a: "forecasted_var ppf fv
            = map (\<lambda>x. np_exp (np_mul (np_div x (Fin 1000)) (Fin (ppf 0.05)))) fv" for fv
    by (simp add: forecasted_var_def Let_def)
  have b: "to_numpy (garch_data df) = map (np_mul (Fin 1000)) (to_numpy df)"
    by (simp add: garch_data_def to_numpy_def)
  have c: "index_of (garch_data df) = index_of df"
    by (simp add: garch_data_def index_of_def)
  have d: "map (\<lambda>x. np_div x (Fin 1000)) (to_numpy (garch_data df)) = to_numpy df"
    unfolding b by (simp add: scale_inverts o_def)
  show ?thesis
    using b c d by (simp add: a)
qed

section \<open>Quantiles and means: proofs\<close>

lemma np_insort_Fin: "np_insort (Fin x) (map Fin ys) = map Fin (insort x ys)"
  by (induction ys) simp_all

lemma np_sort_Fin: "np_sort (map Fin xs) = map Fin (sort xs)"
proof (induction xs)
  case Nil
  then show ?case by (simp add: np_sort_def)
next
  case (Cons x xs)
  have "np_sort (map Fin (x # xs)) = np_insort (Fin x) (np_sort (map Fin xs))"
    by (simp add: np_sort_def)
  also have "\<dots> = map Fin (insort x (sort xs))"
    by (simp add: Cons.IH np_insort_Fin)
  finally show ?case by simp
qed

lemma np_lerp_Fin: "np_lerp (Fin a) (Fin b) t = Fin (a + (b - a) * t)"
  by (simp add: np_lerp_def Let_def np_sub_def algebra_simps)

lemma no_nan_Fin: "\<not> list_ex isnan (map Fin xs)"
  by (induction xs) simp_all

lemma np_sum_Fin_from: "foldl np_add (Fin a) (map Fin ys) = Fin (a + sum_list ys)"
  by (induction ys arbitrary: a) (simp_all add: algebra_simps)

lemma np_sum_Fin: "np_sum (map Fin ys) = Fin (sum_list ys)"
  by (simp add: np_sum_def np_sum_Fin_from)

lemma pd_mean_Fin: "ys \<noteq> [] \<Longrightarrow> pd_mean (map Fin ys) = Fin (mean ys)"
proof -
  assume ne: "ys \<noteq> []"
  have "filter (\<lambda>v. \<not> isnan v) (map Fin ys) = map Fin ys"
    by (induction ys) simp_all
  with ne show ?thesis
    by (simp add: pd_mean_def Let_def np_sum_Fin mean_def)
qed

lemma tail_Fin:
  "filter (\<lambda>x. np_le x (Fin v)) (map Fin xs) = map Fin (tail_at v xs)"
  by (induction xs) (simp_all add: tail_at_def)

lemma floor_frac_bounds:
  fixes v :: real
  assumes "0 \<le> v"
  shows "0 \<le> v - real (nat \<lfloor>v\<rfloor>)" and "v - real (nat \<lfloor>v\<rfloor>) < 1"
proof -
  have f: "0 \<le> \<lfloor>v\<rfloor>" using assms by simp
  then have r: "real (nat \<lfloor>v\<rfloor>) = of_int \<lfloor>v\<rfloor>" by simp
  show "0 \<le> v - real (nat \<lfloor>v\<rfloor>)" unfolding r by linarith
  show "v - real (nat \<lfloor>v\<rfloor>) < 1" unfolding r by linarith
qed

lemma np_quantile_Fin:
  assumes "xs \<noteq> []" and "0 \<le> q" and "q \<le> 1"
  shows "np_quantile (map Fin xs) q = Inr (Fin (type7_quantile xs q))"
proof -
  obtain m where m: "length xs = Suc m"
    using assms(1) by (cases xs) auto
  let ?s = "sort xs"
  let ?vi = "real m * q"
  let ?lo = "nat \<lfloor>?vi\<rfloor>"
  have vi0: "0 \<le> ?vi" using assms(2) by simp
  have vi1: "?vi \<le> real m"
    using assms(2,3) by (simp add: mult_left_le)
  have sne: "?s \<noteq> []" using assms(1) by (metis length_sort length_0_conv)
  have lst: "last ?s = ?s ! m"
    using sne m by (simp add: last_conv_nth)
  have h: "\<lfloor>?vi + 1\<rfloor> = \<lfloor>?vi\<rfloor> + 1" by simp
  have j: "nat \<lfloor>?vi + 1\<rfloor> = Suc ?lo"
    using vi0 unfolding h by (simp add: nat_add_distrib)
  have q7: "type7_quantile xs q =
              ?s ! (min (Suc ?lo) (Suc m) - 1)
              + (?vi + 1 - real (Suc ?lo))
                * (?s ! (min (Suc ?lo + 1) (Suc m) - 1) - ?s ! (min (Suc ?lo) (Suc m) - 1))"
    unfolding type7_quantile_def order_stat_def Let_def m diff_Suc_1 j ..
  have np: "np_quantile (map Fin xs) q =
              Inr (np_lerp
                     (if real m \<le> ?vi then last (map Fin ?s) else map Fin ?s ! ?lo)
                     (if real m \<le> ?vi then last (map Fin ?s) else map Fin ?s ! (?lo + 1))
                     (if real m \<le> ?vi then ?vi + 1 else ?vi - real ?lo))"
    using assms by (simp add: np_quantile_def Let_def no_nan_Fin np_sort_Fin m)
  show ?thesis
  proof (cases "real m \<le> ?vi")
    case True
    with vi1 have eq: "?vi = real m" by simp
    have lo: "?lo = m" by (subst eq) simp
    have t7: "type7_quantile xs q = ?s ! m"
      unfolding q7 lo by (simp add: eq)
    have "np_quantile (map Fin xs) q = Inr (np_lerp (Fin (?s ! m)) (Fin (?s ! m)) (?vi + 1))"
      unfolding np using True sne lst by (simp add: last_map)
    then show ?thesis
      by (simp add: np_lerp_Fin t7)
  next
    case False
    then have lt: "?vi < real m" by (simp only: not_le)
    have "\<lfloor>?vi\<rfloor> < int m"
      using lt by (metis floor_less_iff of_int_of_nat_eq)
    then have lo: "?lo < m"
      using vi0 by linarith
    have mn: "min (Suc ?lo) (Suc m) - 1 = ?lo" "min (Suc ?lo + 1) (Suc m) - 1 = Suc ?lo"
      using lo by simp_all
    have t7: "type7_quantile xs q
                = ?s ! ?lo + (?vi - real ?lo) * (?s ! Suc ?lo - ?s ! ?lo)"
      unfolding q7 mn by simp
    have "np_quantile (map Fin xs) q
            = Inr (np_lerp (Fin (?s ! ?lo)) (Fin (?s ! Suc ?lo)) (?vi - real ?lo))"
      unfolding np using False lo m by simp
    then show ?thesis
      by (simp add: np_lerp_Fin t7 algebra_simps)
  qed
qed

lemma type7_between_order_stats:
  assumes "xs \<noteq> []" and "0 \<le> q" and "q \<le> 1"
  shows "\<exists>i k g. i \<le> k \<and> k < length xs \<and> 0 \<le> g \<and> g \<le> 1
           \<and> type7_quantile xs q = sort xs ! i + g * (sort xs ! k - sort xs ! i)"
proof -
  obtain m where m: "length xs = Suc m"
    using assms(1) by (cases xs) auto
  let ?s = "sort xs"
  let ?vi = "real m * q"
  let ?lo = "nat \<lfloor>?vi\<rfloor>"
  have vi0: "0 \<le> ?vi" using assms(2) by simp
  have vi1: "?vi \<le> real m"
    using assms(2,3) by (simp add: mult_left_le)
  have h: "\<lfloor>?vi + 1\<rfloor> = \<lfloor>?vi\<rfloor> + 1" by simp
  have j: "nat \<lfloor>?vi + 1\<rfloor> = Suc ?lo"
    using vi0 unfolding h by (simp add: nat_add_distrib)
  have q7: "type7_quantile xs q =
              ?s ! (min (Suc ?lo) (Suc m) - 1)
              + (?vi + 1 - real (Suc ?lo))
                * (?s ! (min (Suc ?lo + 1) (Suc m) - 1) - ?s ! (min (Suc ?lo) (Suc m) - 1))"
    unfolding type7_quantile_def order_stat_def Let_def m diff_Suc_1 j ..
  show ?thesis
  proof (cases "real m \<le> ?vi")
    case True
    with vi1 have eq: "?vi = real m" by simp
    have lo: "?lo = m" by (subst eq) simp
    have "type7_quantile xs q = ?s ! m + 0 * (?s ! m - ?s ! m)"
      unfolding q7 lo by (simp add: eq)
    moreover have "m < length xs" by (simp add: m)
    ultimately show ?thesis
      by (intro exI [of _ m] exI [of _ "0::real"]) simp
  next
    case False
    then have lt: "?vi < real m" by (simp only: not_le)
    have "\<lfloor>?vi\<rfloor> < int m"
      using lt by (metis floor_less_iff of_int_of_nat_eq)
    then have lo: "?lo < m"
      using vi0 by linarith
    have mn: "min (Suc ?lo) (Suc m) - 1 = ?lo" "min (Suc ?lo + 1) (Suc m) - 1 = Suc ?lo"
      using lo by simp_all
    have t7: "type7_quantile xs q
                = ?s ! ?lo + (?vi - real ?lo) * (?s ! Suc ?lo - ?s ! ?lo)"
      unfolding q7 mn by simp
    have g: "0 \<le> ?vi - real ?lo" "?vi - real ?lo \<le> 1"
      using floor_frac_bounds [OF vi0] by simp_all
    have "Suc ?lo < length xs" using lo by (simp add: m)
    with t7 g show ?thesis
      by (intro exI [of _ ?lo] exI [of _ "Suc ?lo"] exI [of _ "?vi - real ?lo"]) simp
  qed
qed

lemma type7_quantile_bounds:
  assumes "xs \<noteq> []" and "0 \<le> q" and "q \<le> 1"
  shows "Min (set xs) \<le> type7_quantile xs q" and "type7_quantile xs q \<le> Max (set xs)"
proof -
  obtain i k g where ik: "i \<le> k" "k < length xs" and g: "0 \<le> g" "g \<le> 1"
    and t: "type7_quantile xs q = sort xs ! i + g * (sort xs ! k - sort xs ! i)"
    using type7_between_order_stats [OF assms] by blast
  let ?a = "sort xs ! i" and ?b = "sort xs ! k"
  have ab: "?a \<le> ?b"
    using ik by (simp add: sorted_nth_mono)
  have il: "i < length (sort xs)" and kl: "k < length (sort xs)"
    using ik by simp_all
  have "?a \<in> set (sort xs)" "?b \<in> set (sort xs)"
    using nth_mem [OF il] nth_mem [OF kl] by blast+
  then have mem: "?a \<in> set xs" "?b \<in> set xs" by simp_all
  have lo: "Min (set xs) \<le> ?a" using mem(1) by simp
  have hi: "?b \<le> Max (set xs)" using mem(2) by simp
  have d: "0 \<le> ?b - ?a" using ab by simp
  have "0 \<le> g * (?b - ?a)" using g(1) d by simp
  with lo show "Min (set xs) \<le> type7_quantile xs q"
    unfolding t by linarith
  have "g * (?b - ?a) \<le> ?b - ?a"
    using mult_right_mono [OF g(2) d] by simp
  with hi show "type7_quantile xs q \<le> Max (set xs)"
    unfolding t by linarith
qed

lemma min_in_tail:
  assumes "xs \<noteq> []" and "Min (set xs) \<le> v"
  shows "Min (set xs) \<in> set (tail_at v xs)"
  using assms by (simp add: tail_at_def)



text \<open>The estimator's last two steps on a finite, non-empty sample.\<close>

lemma quantile_and_tail_mean:
  assumes "xs \<noteq> []" and "0 \<le> q" and "q \<le> 1"
  shows "np_quantile (map Fin xs) q = Inr (Fin (type7_quantile xs q))"
    and "pd_mean (filter (\<lambda>x. np_le x (Fin (type7_quantile xs q))) (map Fin xs))
           = Fin (mean (tail_at (type7_quantile xs q) xs))"
    and "tail_at (type7_quantile xs q) xs \<noteq> []"
proof -
  show "np_quantile (map Fin xs) q = Inr (Fin (type7_quantile xs q))"
    using assms by (rule np_quantile_Fin)
  have "Min (set xs) \<in> set (tail_at (type7_quantile xs q) xs)"
    using assms by (intro min_in_tail type7_quantile_bounds)
  then show ne: "tail_at (type7_quantile xs q) xs \<noteq> []" by auto
  then show "pd_mean (filter (\<lambda>x. np_le x (Fin (type7_quantile xs q))) (map Fin xs))
           = Fin (mean (tail_at (type7_quantile xs q) xs))"
    by (simp add: tail_Fin pd_mean_Fin)
qed

section \<open>The two estimators: proofs\<close>

lemma get_log_returns_positive:
  assumes "length ts = length ps" and "\<forall>p \<in> set ps. 0 < p"
  shows "get_log_returns (zip ts (map Fin ps))
           = Inr (zip (butlast ts) (map Fin (spec_log_returns ps)))"
proof -
  let ?df = "zip ts (map Fin ps)"
  let ?rhs = "zip (butlast ts) (map Fin (spec_log_returns ps))"
  obtain out where out: "get_log_returns ?df = Inr out" "length out = length ?df - 1"
    and rows: "\<And>i. i < length out \<Longrightarrow>
                 out ! i = (fst (?df ! i), np_log (np_div (snd (?df ! Suc i)) (snd (?df ! i))))"
    using get_log_returns_rows [of ?df] by blast
  have n: "length out = length ps - 1"
    using out(2) assms(1) by simp
  have nr: "length ?rhs = length ps - 1"
    using assms(1) by (simp add: spec_log_returns_def)
  have "out = ?rhs"
  proof (rule nth_equalityI)
    show "length out = length ?rhs" using n nr by simp
  next
    fix i assume i: "i < length out"
    with n have lt: "Suc i < length ps" by simp
    then have pos: "0 < ps ! i" "0 < ps ! Suc i"
      using assms(2) by (simp_all add: all_set_conv_all_nth)
    have l: "out ! i = (ts ! i, Fin (ln (ps ! Suc i / ps ! i)))"
      using rows [OF i] lt pos assms(1) by simp
    have r: "?rhs ! i = (ts ! i, Fin (ln (ps ! Suc i / ps ! i)))"
      using lt assms(1) by (simp add: spec_log_returns_def nth_butlast)
    show "out ! i = ?rhs ! i" using l r by simp
  qed
  with out(1) show ?thesis by simp
qed

lemma upt_shift: "[a..<n] = map (\<lambda>j. j + a) [0..<n - a]"
proof (cases "a \<le> n")
  case True
  then show ?thesis by (simp add: map_add_upt)
next
  case False
  then show ?thesis by simp
qed

lemma filter_ge_upt: "filter (\<lambda>i. a \<le> i) [0..<n] = [a..<n]"
  by (induction n) auto

lemma to_numpy_filter:
  "to_numpy (filter (\<lambda>row. P (snd row)) df) = filter P (to_numpy df)"
  by (induction df) (simp_all add: to_numpy_def)

lemma rolling_sum_Fin:
  assumes "1 \<le> w" and "length idx = length rs"
  shows "\<exists>rolled. rolling_sum w (zip idx (map Fin rs)) = Inr rolled
           \<and> to_numpy (dropna rolled) = map Fin (spec_rolling_sums (nat w) rs)"
proof -
  let ?df = "zip idx (map Fin rs)"
  let ?k = "nat w"
  let ?n = "length rs"
  let ?S = "\<lambda>i. sum_list (take ?k (drop (i + 1 - ?k) rs))"
  let ?g = "\<lambda>i. if i + 1 < ?k then NaN else np_sum (take ?k (drop (i + 1 - ?k) (to_numpy ?df)))"
  have k: "1 \<le> ?k" using assms(1) by simp
  have tn: "to_numpy ?df = map Fin rs"
    using assms(2) by (simp add: to_numpy_def)
  have len: "length ?df = ?n" using assms(2) by simp
  have r: "rolling_sum w ?df = Inr (map (\<lambda>i. (index_of ?df ! i, ?g i)) [0..<?n])"
    using assms(1) len by (simp add: rolling_sum_def Let_def)
  have val: "?g i = (if i + 1 < ?k then NaN else Fin (?S i))" for i
    unfolding tn by (simp add: take_map drop_map np_sum_Fin)
  have keep: "(\<not> isnan (?g i)) = (?k - 1 \<le> i)" for i
    unfolding val using k by auto
  have "to_numpy (dropna (map (\<lambda>i. (index_of ?df ! i, ?g i)) [0..<?n]))
          = map ?g (filter (\<lambda>i. \<not> isnan (?g i)) [0..<?n])"
    by (simp add: to_numpy_def dropna_def filter_map o_def)
  also have "\<dots> = map ?g [?k - 1..<?n]"
    by (simp only: keep filter_ge_upt)
  also have "\<dots> = map (\<lambda>i. Fin (?S i)) [?k - 1..<?n]"
    unfolding val using k by (intro map_cong refl) auto
  also have "\<dots> = map (\<lambda>j. Fin (?S (j + (?k - 1)))) [0..<?n - (?k - 1)]"
    by (subst upt_shift) (simp add: o_def)
  also have "\<dots> = map Fin (spec_rolling_sums ?k rs)"
  proof -
    have a: "?n - (?k - 1) = ?n + 1 - ?k" using k by simp
    have b: "j + (?k - 1) + 1 - ?k = j" for j using k by simp
    show ?thesis
      unfolding spec_rolling_sums_def a b by (simp add: o_def)
  qed
  finally show ?thesis using r by blast
qed


lemma spec_rolling_sums_length: "length (spec_rolling_sums w rs) = length rs + 1 - w"
  by (simp add: spec_rolling_sums_def)

lemma spec_log_returns_length: "length (spec_log_returns ps) = length ps - 1"
  by (simp add: spec_log_returns_def)

lemma get_var_cvar_value:
  assumes "length ts = length ps" and "\<forall>p \<in> set ps. 0 < p"
    and "1 \<le> w" and "nat w < length ps" and "0 \<le> q" and "q \<le> 1"
  shows "get_var_cvar (zip ts (map Fin ps)) w q =
           Inr (Fin (type7_quantile (spec_rolling_sums (nat w) (spec_log_returns ps)) q),
                Fin (mean (tail_at
                             (type7_quantile (spec_rolling_sums (nat w) (spec_log_returns ps)) q)
                             (spec_rolling_sums (nat w) (spec_log_returns ps)))))"
    and "spec_rolling_sums (nat w) (spec_log_returns ps) \<noteq> []"
proof -
  let ?rs = "spec_log_returns ps"
  let ?sums = "spec_rolling_sums (nat w) ?rs"
  let ?v = "type7_quantile ?sums q"
  have lr: "get_log_returns (zip ts (map Fin ps)) = Inr (zip (butlast ts) (map Fin ?rs))"
    using assms(1,2) by (rule get_log_returns_positive)
  have li: "length (butlast ts) = length ?rs"
    using assms(1) by (simp add: spec_log_returns_length)
  obtain rolled where ro: "rolling_sum w (zip (butlast ts) (map Fin ?rs)) = Inr rolled"
    and dn: "to_numpy (dropna rolled) = map Fin ?sums"
    using rolling_sum_Fin [OF assms(3) li] by blast
  have "0 < length ?sums"
    using assms(3,4) by (simp add: spec_rolling_sums_length spec_log_returns_length)
  then show ne: "?sums \<noteq> []" by simp
  note qt = quantile_and_tail_mean [OF ne assms(5,6)]
  show "get_var_cvar (zip ts (map Fin ps)) w q = Inr (Fin ?v, Fin (mean (tail_at ?v ?sums)))"
    unfolding get_var_cvar_def lr
    by (simp add: ro Let_def dn qt(1) qt(2) to_numpy_filter [of "\<lambda>x. np_le x (Fin ?v)"])
qed


lemma spec_rolling_sums_nth:
  assumes "j < length (spec_rolling_sums w rs)"
  shows "spec_rolling_sums w rs ! j = (\<Sum>i<w. rs ! (j + i))"
proof -
  from assms have j: "j + w \<le> length rs"
    by (simp add: spec_rolling_sums_def)
  have "spec_rolling_sums w rs ! j = sum_list (take w (drop j rs))"
    using assms by (simp add: spec_rolling_sums_def)
  also have "\<dots> = (\<Sum>i = 0..<w. take w (drop j rs) ! i)"
  proof -
    have "length (take w (drop j rs)) = w" using j by simp
    then show ?thesis
      using sum_list_sum_nth [of "take w (drop j rs)"] by (simp only:)
  qed
  also have "\<dots> = (\<Sum>i = 0..<w. rs ! (j + i))"
    using j by (intro sum.cong refl) simp
  finally show ?thesis by (simp add: lessThan_atLeast0)
qed

text \<open>
  Claim C4.  For a series of strictly positive prices, a window \<open>w \<ge> 1\<close> that leaves the
  rolling-sum series non-empty and a level \<open>0 < q < 1\<close>, \<open>get_var_cvar\<close> works on the
  rolling sums of the log returns over a trailing window of \<open>w\<close> values (\<open>length - w + 1\<close>
  of them, the undefined leading positions dropped): the value at risk is their empirical
  quantile of type 7 (linear interpolation between order statistics), and the expected
  shortfall is the arithmetic mean of the rolling sums at or below the value at risk.
\<close>

theorem historical_estimator_refines:
  assumes "length ts = length ps" and "\<forall>p \<in> set ps. 0 < p"
    and "1 \<le> w" and "nat w \<le> length (spec_log_returns ps)" and "0 < q" and "q < 1"
  shows "\<exists>rsums v.
           rsums = spec_rolling_sums (nat w) (spec_log_returns ps)
           \<and> length rsums = length (spec_log_returns ps) - nat w + 1
           \<and> (\<forall>j < length rsums. rsums ! j = (\<Sum>i<nat w. spec_log_returns ps ! (j + i)))
           \<and> v = type7_quantile rsums q
           \<and> get_var_cvar (zip ts (map Fin ps)) w q =
               Inr (Fin v, Fin (mean (filter (\<lambda>x. x \<le> v) rsums)))"
proof -
  let ?rs = "spec_log_returns ps"
  let ?sums = "spec_rolling_sums (nat w) ?rs"
  have w: "nat w < length ps"
    using assms(3,4) by (simp add: spec_log_returns_length)
  have q: "0 \<le> q" "q \<le> 1" using assms(5,6) by simp_all
  have len: "length ?sums = length ?rs - nat w + 1"
    using assms(4) by (simp add: spec_rolling_sums_length)
  have nth: "\<forall>j < length ?sums. ?sums ! j = (\<Sum>i<nat w. ?rs ! (j + i))"
    by (simp add: spec_rolling_sums_nth)
  have "get_var_cvar (zip ts (map Fin ps)) w q =
          Inr (Fin (type7_quantile ?sums q),
               Fin (mean (filter (\<lambda>x. x \<le> type7_quantile ?sums q) ?sums)))"
    using get_var_cvar_value(1) [OF assms(1,2,3) w q] by (simp add: tail_at_def)
  with len nth show ?thesis by blast
qed



lemma toy_returns: "spec_log_returns [1, 2, 2] = [ln 2, 0]"
  by (simp add: spec_log_returns_def upt_rec)

lemma toy_sums: "spec_rolling_sums (Suc 0) [ln 2, 0] = [ln 2, 0]"
  by (simp add: spec_rolling_sums_def upt_rec)

lemma toy_quantile: "type7_quantile [ln 2, 0] (1/2) = ln 2 / 2"
  by (simp add: type7_quantile_def order_stat_def Let_def)

text \<open>
  Claim C4 at the prices 1, 2, 2 with window 1 and level 0.5: the rolling sums are
  \<open>ln 2\<close> and 0, their median is \<open>ln 2 / 2\<close>, and the mean of the values below it is 0.
\<close>

theorem historical_estimator_refines_witness:
  "length [0, 1, 2 :: int] = length [1, 2, 2 :: real]
   \<and> (0::real) < 1 \<and> (0::real) < 2 \<and> (1::int) \<le> 1
   \<and> nat 1 \<le> length (spec_log_returns [1, 2, 2]) \<and> (0::real) < 1/2 \<and> (1/2::real) < 1
   \<and> get_var_cvar [(0, Fin 1), (1, Fin 2), (2, Fin 2)] 1 (1/2) = Inr (Fin (ln 2 / 2), Fin 0)"
  using historical_estimator_refines [of "[0, 1, 2]" "[1, 2, 2]" 1 "1/2"]
  by (simp add: toy_returns toy_sums toy_quantile mean_def)








end
